theory Spec2Isabelle
  imports Complex_Main "HOL-Library.Multiset"
begin

section \<open>Strings and the regular expressions of the source\<close>

text \<open>
  A JavaScript string is modelled as a \<^typ>\<open>string\<close>: the list of its code units, each
  below 256 (the Latin-1 range). White space (\<^verbatim>\<open>\s\<close>, \<^verbatim>\<open>trim\<close>) in that range is
  TAB, LF, VT, FF, CR, SPACE and NBSP; \<^verbatim>\<open>\d\<close> is an ASCII digit and \<^verbatim>\<open>\w\<close> an ASCII
  letter, digit or underscore. Under the flag \<^verbatim>\<open>i\<close> (without \<^verbatim>\<open>u\<close>) an ASCII letter of
  a pattern matches exactly its two ASCII cases.
\<close>

definition isSpace :: "char \<Rightarrow> bool" where
  "isSpace c \<longleftrightarrow>
     c \<in> set [CHR 0x09, CHR 0x0A, CHR 0x0B, CHR 0x0C, CHR 0x0D, CHR 0x20, CHR 0xA0]"

definition isDigit :: "char \<Rightarrow> bool" where
  "isDigit c \<longleftrightarrow> c \<in> set ''0123456789''"

definition upperLetters :: string where
  "upperLetters = ''ABCDEFGHIJKLMNOPQRSTUVWXYZ''"

definition lowerLetters :: string where
  "lowerLetters = ''abcdefghijklmnopqrstuvwxyz''"

definition isWordChar :: "char \<Rightarrow> bool" where
  "isWordChar c \<longleftrightarrow>
     c \<in> set upperLetters \<or> c \<in> set lowerLetters \<or> isDigit c \<or> c = CHR ''_''"

text \<open>The case folding of a match under the flag \<^verbatim>\<open>i\<close>, on the letters a pattern has.\<close>

definition lowerAscii :: "char \<Rightarrow> char" where
  "lowerAscii c =
     (case map_of (zip upperLetters lowerLetters) c of Some l \<Rightarrow> l | None \<Rightarrow> c)"

text \<open>\<^verbatim>\<open>String.prototype.toLowerCase\<close> on the Latin-1 range: A-Z and the accented capitals
  0xC0-0xDE (but the multiplication sign 0xD7) move up by 0x20.\<close>

definition latin1Upper :: string where
  "latin1Upper =
     [CHR 0xC0, CHR 0xC1, CHR 0xC2, CHR 0xC3, CHR 0xC4, CHR 0xC5, CHR 0xC6, CHR 0xC7,
      CHR 0xC8, CHR 0xC9, CHR 0xCA, CHR 0xCB, CHR 0xCC, CHR 0xCD, CHR 0xCE, CHR 0xCF,
      CHR 0xD0, CHR 0xD1, CHR 0xD2, CHR 0xD3, CHR 0xD4, CHR 0xD5, CHR 0xD6,
      CHR 0xD8, CHR 0xD9, CHR 0xDA, CHR 0xDB, CHR 0xDC, CHR 0xDD, CHR 0xDE]"

definition latin1Lower :: string where
  "latin1Lower =
     [CHR 0xE0, CHR 0xE1, CHR 0xE2, CHR 0xE3, CHR 0xE4, CHR 0xE5, CHR 0xE6, CHR 0xE7,
      CHR 0xE8, CHR 0xE9, CHR 0xEA, CHR 0xEB, CHR 0xEC, CHR 0xED, CHR 0xEE, CHR 0xEF,
      CHR 0xF0, CHR 0xF1, CHR 0xF2, CHR 0xF3, CHR 0xF4, CHR 0xF5, CHR 0xF6,
      CHR 0xF8, CHR 0xF9, CHR 0xFA, CHR 0xFB, CHR 0xFC, CHR 0xFD, CHR 0xFE]"

definition toLowerCase :: "string \<Rightarrow> string" where
  "toLowerCase s =
     map (\<lambda>c. case map_of (zip (upperLetters @ latin1Upper) (lowerLetters @ latin1Lower)) c of
                 Some l \<Rightarrow> l | None \<Rightarrow> c) s"

definition trimStart :: "string \<Rightarrow> string" where
  "trimStart s = dropWhile isSpace s"

definition trimEnd :: "string \<Rightarrow> string" where
  "trimEnd s = rev (dropWhile isSpace (rev s))"

definition trim :: "string \<Rightarrow> string" where
  "trim s = trimStart (trimEnd s)"

text \<open>A literal \<open>w\<close> of a pattern (written in lower case) matched under the flag \<^verbatim>\<open>i\<close> at the
  start of \<open>s\<close>.\<close>

definition ciPrefix :: "string \<Rightarrow> string \<Rightarrow> bool" where
  "ciPrefix w s \<longleftrightarrow> map lowerAscii (take (length w) s) = w"

text \<open>\<^verbatim>\<open>\b\<close> after a word character: the rest is empty or starts with a non-word character.\<close>

definition atWordEnd :: "string \<Rightarrow> bool" where
  "atWordEnd rest = (case rest of [] \<Rightarrow> True | c # _ \<Rightarrow> \<not> isWordChar c)"

text \<open>\<^verbatim>\<open>/^w\b/i.test(s)\<close> for a literal \<open>w\<close> that ends in a letter.\<close>

definition re_wordAtStart :: "string \<Rightarrow> string \<Rightarrow> bool" where
  "re_wordAtStart w s \<longleftrightarrow> ciPrefix w s \<and> atWordEnd (drop (length w) s)"

text \<open>\<^verbatim>\<open>/w/i.test(s)\<close> for a literal \<open>w\<close>: the literal is tried at every position.\<close>

fun re_literal :: "string \<Rightarrow> string \<Rightarrow> bool" where
  "re_literal w [] = (w = [])"
| "re_literal w (c # cs) = (ciPrefix w (c # cs) \<or> re_literal w cs)"


section \<open>Data model\<close>

datatype Audience = Adult | Junior

record Entry =
  rawLines :: "string list"
  barcode :: string
  shelfmark :: string
  author :: string
  itemType :: string
  sequence :: string
  audience :: Audience
  originalIndex :: nat


section \<open>Audience classification\<close>

definition classifyAudience :: "string \<Rightarrow> string \<Rightarrow> Audience" where
  "classifyAudience itemType' sequence' =
     (let type = trim itemType' in
      if re_wordAtStart ''adult'' type then Adult
      else if re_wordAtStart ''junior'' type then Junior
      else if re_literal ''children'' type \<or> re_literal ''children'' sequence' then Junior
      else Adult)"

subsection \<open>The classification as the specification words it\<close>

text \<open>A string starts with the word \<open>w\<close>, in any case: \<open>w\<close> is a prefix and no word character
  follows it.\<close>

definition startsWithWord :: "string \<Rightarrow> string \<Rightarrow> bool" where
  "startsWithWord w s \<longleftrightarrow>
     (\<exists>pre rest. s = pre @ rest \<and> map lowerAscii pre = w \<and>
        (rest = [] \<or> \<not> isWordChar (hd rest)))"

text \<open>A string contains \<open>w\<close>, in any case.\<close>

definition containsText :: "string \<Rightarrow> string \<Rightarrow> bool" where
  "containsText w s \<longleftrightarrow> (\<exists>pre mid post. s = pre @ mid @ post \<and> map lowerAscii mid = w)"

definition classifyAudience_spec :: "string \<Rightarrow> string \<Rightarrow> Audience" where
  "classifyAudience_spec itemType' sequence' =
     (if startsWithWord ''adult'' (trim itemType') then Adult
      else if startsWithWord ''junior'' (trim itemType') then Junior
      else if containsText ''children'' itemType' \<or> containsText ''children'' sequence'
        then Junior
      else Adult)"


section \<open>Sort keys and the comparator\<close>

text \<open>\<^verbatim>\<open>/\bw\b/i.test(s)\<close> for a literal \<open>w\<close> of word characters: the literal is tried at every
  position that does not follow a word character (the flag of the second argument), and
  no word character may follow it.\<close>

fun re_wholeWordFrom :: "string \<Rightarrow> bool \<Rightarrow> string \<Rightarrow> bool" where
  "re_wholeWordFrom w afterWord [] = False"
| "re_wholeWordFrom w afterWord (c # cs) =
     ((\<not> afterWord \<and> ciPrefix w (c # cs) \<and> atWordEnd (drop (length w) (c # cs))) \<or>
      re_wholeWordFrom w (isWordChar c) cs)"

definition re_wholeWord :: "string \<Rightarrow> string \<Rightarrow> bool" where
  "re_wholeWord w s = re_wholeWordFrom w False s"

text \<open>
  The pieces of a pattern that is matched from a fixed position, each giving the rest of
  the string after its match, or \<open>None\<close>. A run of white space is taken greedily: in every
  pattern of the source a non-space character follows it, so no shorter run can match.
\<close>

definition lit :: "string \<Rightarrow> string \<Rightarrow> string option" where
  "lit w s = (if ciPrefix w s then Some (drop (length w) s) else None)"

definition spaces1 :: "string \<Rightarrow> string option" where
  "spaces1 s = (case s of [] \<Rightarrow> None
     | c # cs \<Rightarrow> if isSpace c then Some (dropWhile isSpace cs) else None)"

definition oneOf :: "string \<Rightarrow> string \<Rightarrow> string option" where
  "oneOf cls s = (case s of [] \<Rightarrow> None | c # cs \<Rightarrow> if c \<in> set cls then Some cs else None)"

definition wordEnd :: "string \<Rightarrow> string option" where
  "wordEnd s = (if atWordEnd s then Some s else None)"

text \<open>\<^verbatim>\<open>/^\s*(adult|junior)\s+/i\<close>, the common start of two patterns; the second
  alternative is tried when the first does not lead to a match.\<close>

definition re_audiencePrefix :: "string \<Rightarrow> string option" where
  "re_audiencePrefix s =
     (let s1 = dropWhile isSpace s in
      case Option.bind (lit ''adult'' s1) spaces1 of
        Some r \<Rightarrow> Some r
      | None \<Rightarrow> Option.bind (lit ''junior'' s1) spaces1)"

text \<open>\<^verbatim>\<open>/^\s*(adult|junior)\s+non[- ]fiction\b/i.test(s)\<close>\<close>

definition re_nonFiction :: "string \<Rightarrow> bool" where
  "re_nonFiction s \<longleftrightarrow>
     Option.bind (Option.bind (Option.bind (Option.bind (re_audiencePrefix s)
       (lit ''non'')) (oneOf ''- '')) (lit ''fiction'')) wordEnd \<noteq> None"

text \<open>\<^verbatim>\<open>/^\s*(adult|junior)\s+fiction\b/i.test(s)\<close>\<close>

definition re_fiction :: "string \<Rightarrow> bool" where
  "re_fiction s \<longleftrightarrow>
     Option.bind (Option.bind (re_audiencePrefix s) (lit ''fiction'')) wordEnd \<noteq> None"

text \<open>Two literals with white space between them, tried at every position of the
  string: \<^verbatim>\<open>/u\s+v/i.test(s)\<close>.\<close>

definition twoWordsAt :: "string \<Rightarrow> string \<Rightarrow> string \<Rightarrow> string option" where
  "twoWordsAt u v s = Option.bind (Option.bind (lit u s) spaces1) (lit v)"

fun re_twoWords :: "string \<Rightarrow> string \<Rightarrow> string \<Rightarrow> bool" where
  "re_twoWords u v [] = (twoWordsAt u v [] \<noteq> None)"
| "re_twoWords u v (c # cs) = (twoWordsAt u v (c # cs) \<noteq> None \<or> re_twoWords u v cs)"

text \<open>\<^verbatim>\<open>/graphic\s+fiction/i.test(s)\<close>\<close>

definition re_graphicFiction :: "string \<Rightarrow> bool" where
  "re_graphicFiction s = re_twoWords ''graphic'' ''fiction'' s"

definition itemTypeBucket :: "string \<Rightarrow> int" where
  "itemTypeBucket itemType' =
     (if re_wholeWord ''dvd'' itemType' then 3
      else if re_nonFiction itemType' then 0
      else if re_fiction itemType' then 1
      else if re_graphicFiction itemType' then 2
      else 3)"

definition compareTypeBucket :: "string \<Rightarrow> string \<Rightarrow> int" where
  "compareTypeBucket aType bType = itemTypeBucket aType - itemTypeBucket bType"

text \<open>
  \<^verbatim>\<open>compareText\<close> is \<^verbatim>\<open>a.localeCompare(b, undefined, {sensitivity: "base", numeric: true})\<close>:
  the collation of the JavaScript runtime, which is not code of the repository. It is the
  parameter \<open>lc\<close> of everything that compares text.
\<close>

type_synonym collator = "string \<Rightarrow> string \<Rightarrow> int"

definition compareText :: "collator \<Rightarrow> string \<Rightarrow> string \<Rightarrow> int" where
  "compareText lc a b = lc a b"

definition compareSequence :: "collator \<Rightarrow> string \<Rightarrow> string \<Rightarrow> int" where
  "compareSequence lc a b =
     (let aBlank = (trim a = []); bBlank = (trim b = []) in
      if aBlank \<and> bBlank then 0
      else if aBlank then - 1
      else if bBlank then 1
      else compareText lc a b)"

text \<open>\<^verbatim>\<open>/^adult fiction$/i.test(s)\<close>\<close>

definition re_adultFiction :: "string \<Rightarrow> bool" where
  "re_adultFiction s \<longleftrightarrow> map lowerAscii s = ''adult fiction''"

definition normalizeSequenceForSorting :: "string \<Rightarrow> string \<Rightarrow> string" where
  "normalizeSequenceForSorting itemType' sequence' =
     (if \<not> re_adultFiction (trim itemType') then sequence'
      else
        let normalized = toLowerCase (trim sequence') in
        if normalized = ''thriller'' then ''Crime''
        else if normalized = ''historical'' \<or> normalized = ''romance'' \<or>
                normalized = ''saga'' \<or> normalized = ''horror'' \<or>
                normalized = ''western'' then []
        else sequence')"

definition compareEntries :: "collator \<Rightarrow> Entry \<Rightarrow> Entry \<Rightarrow> int" where
  "compareEntries lc a b =
     (let typeBucketCompare = compareTypeBucket (itemType a) (itemType b) in
      if typeBucketCompare \<noteq> 0 then typeBucketCompare
      else
        let itemTypeCompare = compareText lc (itemType a) (itemType b) in
        if itemTypeCompare \<noteq> 0 then itemTypeCompare
        else
          let sequenceCompare =
                compareSequence lc
                  (normalizeSequenceForSorting (itemType a) (sequence a))
                  (normalizeSequenceForSorting (itemType b) (sequence b)) in
          if sequenceCompare \<noteq> 0 then sequenceCompare
          else
            let shelfmarkCompare = compareText lc (shelfmark a) (shelfmark b) in
            if shelfmarkCompare \<noteq> 0 then shelfmarkCompare
            else
              let authorCompare = compareText lc (author a) (author b) in
              if authorCompare \<noteq> 0 then authorCompare
              else
                let barcodeCompare = compareText lc (barcode a) (barcode b) in
                if barcodeCompare \<noteq> 0 then barcodeCompare
                else int (originalIndex a) - int (originalIndex b))"

text \<open>
  \<^verbatim>\<open>Array.prototype.sort(compareFn)\<close> is a stable sort of the runtime: the model is the
  stable insertion sort, which puts an element before the first one it does not come
  after.
\<close>

fun insertBy :: "('a \<Rightarrow> 'a \<Rightarrow> int) \<Rightarrow> 'a \<Rightarrow> 'a list \<Rightarrow> 'a list" where
  "insertBy cmp x [] = [x]"
| "insertBy cmp x (y # ys) = (if cmp x y \<le> 0 then x # y # ys else y # insertBy cmp x ys)"

definition sortBy :: "('a \<Rightarrow> 'a \<Rightarrow> int) \<Rightarrow> 'a list \<Rightarrow> 'a list" where
  "sortBy cmp xs = foldr (insertBy cmp) xs []"

text \<open>A collation for the examples: code units compared without regard to ASCII case,
  the shorter of two strings first when one is a prefix of the other.\<close>

definition charKey :: "char \<Rightarrow> nat" where
  "charKey c = of_char (lowerAscii c)"

fun sampleCollator :: collator where
  "sampleCollator [] [] = 0"
| "sampleCollator [] (y # ys) = - 1"
| "sampleCollator (x # xs) [] = 1"
| "sampleCollator (x # xs) (y # ys) =
     (if charKey x < charKey y then - 1
      else if charKey y < charKey x then 1
      else sampleCollator xs ys)"


subsection \<open>The sort keys as the specification words them\<close>

definition containsWholeWord :: "string \<Rightarrow> string \<Rightarrow> bool" where
  "containsWholeWord w s \<longleftrightarrow>
     (\<exists>pre mid post. s = pre @ mid @ post \<and> map lowerAscii mid = w \<and>
        (pre = [] \<or> \<not> isWordChar (last pre)) \<and> (post = [] \<or> \<not> isWordChar (hd post)))"

definition isAudienceWord :: "string \<Rightarrow> bool" where
  "isAudienceWord aud \<longleftrightarrow> map lowerAscii aud \<in> set [''adult'', ''junior'']"

definition beginsAudienceThen :: "string list \<Rightarrow> string \<Rightarrow> bool" where
  "beginsAudienceThen ws s \<longleftrightarrow>
     (\<exists>sp0 aud sp1 x rest. s = sp0 @ aud @ sp1 @ x @ rest \<and>
        list_all isSpace sp0 \<and> isAudienceWord aud \<and>
        sp1 \<noteq> [] \<and> list_all isSpace sp1 \<and> map lowerAscii x \<in> set ws \<and>
        (rest = [] \<or> \<not> isWordChar (hd rest)))"

definition wordsApartIn :: "string \<Rightarrow> string \<Rightarrow> string \<Rightarrow> bool" where
  "wordsApartIn u v s \<longleftrightarrow>
     (\<exists>pre g sp f post. s = pre @ g @ sp @ f @ post \<and> map lowerAscii g = u \<and>
        sp \<noteq> [] \<and> list_all isSpace sp \<and> map lowerAscii f = v)"

definition containsGraphicFiction :: "string \<Rightarrow> bool" where
  "containsGraphicFiction s \<longleftrightarrow> wordsApartIn ''graphic'' ''fiction'' s"

definition itemTypeBucket_spec :: "string \<Rightarrow> int" where
  "itemTypeBucket_spec t =
     (if containsWholeWord ''dvd'' t then 3
      else if beginsAudienceThen [''non-fiction'', ''non fiction''] t then 0
      else if beginsAudienceThen [''fiction''] t then 1
      else if containsGraphicFiction t then 2
      else 3)"


text \<open>What a sort needs of a comparator: the sign flips with the arguments, and "not
  after" is transitive.\<close>

definition consistentComparator :: "('a \<Rightarrow> 'a \<Rightarrow> int) \<Rightarrow> bool" where
  "consistentComparator c \<longleftrightarrow>
     (\<forall>a b. (c a b < 0) = (0 < c b a)) \<and>
     (\<forall>a b d. c a b \<le> 0 \<and> c b d \<le> 0 \<longrightarrow> c a d \<le> 0)"



section \<open>Properties of the string functions\<close>

lemma re_wordAtStart_iff: "re_wordAtStart w s \<longleftrightarrow> startsWithWord w s"
proof
  assume "re_wordAtStart w s"
  then have p: "map lowerAscii (take (length w) s) = w"
    and e: "atWordEnd (drop (length w) s)"
    by (simp_all add: re_wordAtStart_def ciPrefix_def)
  from e have "drop (length w) s = [] \<or> \<not> isWordChar (hd (drop (length w) s))"
    by (cases "drop (length w) s") (simp_all add: atWordEnd_def)
  with p show "startsWithWord w s"
    unfolding startsWithWord_def
    by (intro exI [of _ "take (length w) s"] exI [of _ "drop (length w) s"]) simp
next
  assume "startsWithWord w s"
  then obtain pre rest where s: "s = pre @ rest" and p: "map lowerAscii pre = w"
    and r: "rest = [] \<or> \<not> isWordChar (hd rest)"
    unfolding startsWithWord_def by blast
  from p have l: "length w = length pre" by auto
  from r have "atWordEnd rest" by (cases rest) (simp_all add: atWordEnd_def)
  with s p l show "re_wordAtStart w s"
    by (simp add: re_wordAtStart_def ciPrefix_def)
qed

lemma re_literal_iff: "re_literal w s \<longleftrightarrow> containsText w s"
proof (induction s)
  case Nil
  show ?case by (auto simp: containsText_def)
next
  case (Cons c cs)
  show ?case
  proof
    assume "re_literal w (c # cs)"
    then consider "ciPrefix w (c # cs)" | "re_literal w cs" by auto
    then show "containsText w (c # cs)"
    proof cases
      case 1
      then have "c # cs = [] @ take (length w) (c # cs) @ drop (length w) (c # cs) \<and>
          map lowerAscii (take (length w) (c # cs)) = w"
        by (simp add: ciPrefix_def)
      then show ?thesis unfolding containsText_def by blast
    next
      case 2
      with Cons obtain pre mid post where "cs = pre @ mid @ post" "map lowerAscii mid = w"
        unfolding containsText_def by blast
      then have "c # cs = (c # pre) @ mid @ post \<and> map lowerAscii mid = w" by simp
      then show ?thesis unfolding containsText_def by blast
    qed
  next
    assume "containsText w (c # cs)"
    then obtain pre mid post where s: "c # cs = pre @ mid @ post"
      and m: "map lowerAscii mid = w"
      unfolding containsText_def by blast
    show "re_literal w (c # cs)"
    proof (cases pre)
      case Nil
      with s m have "ciPrefix w (c # cs)"
        by (auto simp: ciPrefix_def)
      then show ?thesis by simp
    next
      case (Cons p ps)
      with s have "cs = ps @ mid @ post" by simp
      with m have "containsText w cs" unfolding containsText_def by blast
      with Cons.IH show ?thesis by simp
    qed
  qed
qed

lemma lowerAscii_cases:
  "lowerAscii c = c \<or> (c \<in> set upperLetters \<and> lowerAscii c \<in> set lowerLetters)"
  by (simp add: lowerAscii_def upperLetters_def lowerLetters_def)

lemma upper_not_space: "c \<in> set upperLetters \<Longrightarrow> \<not> isSpace c"
  by (auto simp: isSpace_def upperLetters_def)

lemma lower_not_space: "c \<in> set lowerLetters \<Longrightarrow> \<not> isSpace c"
  by (auto simp: isSpace_def lowerLetters_def)

lemma isSpace_lowerAscii [simp]: "isSpace (lowerAscii c) = isSpace c"
  using lowerAscii_cases [of c] upper_not_space [of c] lower_not_space [of "lowerAscii c"]
  by metis

lemma isWordChar_lowerAscii [simp]: "isWordChar (lowerAscii c) = isWordChar c"
  using lowerAscii_cases [of c] unfolding isWordChar_def by metis

text \<open>A literal that starts with a non-space character is not found in leading white
  space, so trimming does not change whether it occurs.\<close>

lemma re_literal_dropWhile:
  assumes "w \<noteq> []" "\<not> isSpace (hd w)"
  shows "re_literal w (dropWhile isSpace s) = re_literal w s"
proof (induction s)
  case Nil
  show ?case by simp
next
  case (Cons c cs)
  show ?case
  proof (cases "isSpace c")
    case True
    have "\<not> ciPrefix w (c # cs)"
    proof
      assume "ciPrefix w (c # cs)"
      then have "map lowerAscii (take (length w) (c # cs)) = w"
        by (simp add: ciPrefix_def)
      with assms(1) have "hd w = lowerAscii c" by (cases w) auto
      with True assms(2) show False by simp
    qed
    with True Cons show ?thesis by simp
  next
    case False
    then show ?thesis by simp
  qed
qed

lemma containsText_rev: "containsText w (rev s) = containsText (rev w) s"
proof -
  have "containsText (rev w) s" if "containsText w (rev s)" for w s
  proof -
    from that obtain pre mid post
      where s: "rev s = pre @ mid @ post" and m: "map lowerAscii mid = w"
      unfolding containsText_def by blast
    from s have "s = rev post @ rev mid @ rev pre"
      by (metis append.assoc rev_append rev_rev_ident)
    moreover from m have "map lowerAscii (rev mid) = rev w" by (metis rev_map)
    ultimately show ?thesis unfolding containsText_def by blast
  qed
  from this [of w s] this [of "rev w" "rev s"] show ?thesis by auto
qed

lemma containsText_trim:
  assumes "w \<noteq> []" "\<not> isSpace (hd w)" "\<not> isSpace (last w)"
  shows "containsText w (trim s) = containsText w s"
proof -
  have "containsText w (trim s) = containsText w (trimEnd s)"
    using re_literal_dropWhile [OF assms(1,2)]
    by (simp add: trim_def trimStart_def re_literal_iff)
  also have "\<dots> = containsText (rev w) (dropWhile isSpace (rev s))"
    by (simp add: trimEnd_def containsText_rev)
  also have "\<dots> = containsText (rev w) (rev s)"
    using re_literal_dropWhile [of "rev w" "rev s"] assms
    by (simp add: re_literal_iff hd_rev)
  also have "\<dots> = containsText w s" by (simp add: containsText_rev)
  finally show ?thesis .
qed

text \<open>The unfolding rules that evaluate the string functions on a literal.\<close>

lemmas string_eval =
  trim_def trimStart_def trimEnd_def isSpace_def isDigit_def isWordChar_def
  lowerAscii_def upperLetters_def lowerLetters_def ciPrefix_def atWordEnd_def
  re_wordAtStart_def lit_def spaces1_def oneOf_def wordEnd_def Let_def


section \<open>Properties of the audience classification\<close>

text \<open>
  Claim C4. For every pair of strings (itemType, sequence), classifyAudience returns adult
  if the trimmed itemType starts with the word "adult" in any case; otherwise junior if it
  starts with the word "junior"; otherwise junior if itemType or sequence contains
  "children" in any case; otherwise adult.
\<close>

theorem classifyAudience_refines_spec:
  "classifyAudience itemType' sequence' = classifyAudience_spec itemType' sequence'"
  by (simp add: classifyAudience_def classifyAudience_spec_def Let_def re_wordAtStart_iff
      re_literal_iff containsText_trim isSpace_def)

theorem classifyAudience_refines_spec_witness:
  "classifyAudience_spec ''Picture Book'' ''Childrens Library'' = Junior"
  using classifyAudience_refines_spec [of "''Picture Book''" "''Childrens Library''"]
  by (simp add: classifyAudience_def string_eval)

text \<open>
  Claim C10. If the trimmed itemType of an entry starts with the word "adult" in any case,
  the entry is classified as adult whatever its sequence and the rest of its itemType
  hold, "children" included: the adult prefix comes before the children rule.
\<close>

theorem adult_prefix_precedes_children:
  "startsWithWord ''adult'' (trim itemType') \<Longrightarrow>
     classifyAudience itemType' sequence' = Adult"
  by (simp add: classifyAudience_def re_wordAtStart_iff)

theorem adult_prefix_precedes_children_witness:
  "startsWithWord ''adult'' (trim ''Adult Children Fiction'') \<and>
   re_literal ''children'' ''Adult Children Fiction'' \<and>
   re_literal ''children'' ''Children'' \<and>
   classifyAudience ''Adult Children Fiction'' ''Children'' = Adult"
proof -
  have h: "startsWithWord ''adult'' (trim ''Adult Children Fiction'')"
    unfolding re_wordAtStart_iff [symmetric] by (simp add: string_eval)
  have "re_literal ''children'' ''Adult Children Fiction''"
    and "re_literal ''children'' ''Children''"
    by (simp_all add: string_eval)
  with h adult_prefix_precedes_children [OF h, of "''Children''"] show ?thesis by simp
qed


section \<open>Properties of the patterns of the sort keys\<close>

lemma atWordEnd_iff: "atWordEnd r \<longleftrightarrow> r = [] \<or> \<not> isWordChar (hd r)"
  by (cases r) (simp_all add: atWordEnd_def)

lemma re_wholeWordFrom_iff:
  assumes "w \<noteq> []"
  shows "re_wholeWordFrom w aw s \<longleftrightarrow>
     (\<exists>pre mid post. s = pre @ mid @ post \<and> map lowerAscii mid = w \<and>
        (if pre = [] then \<not> aw else \<not> isWordChar (last pre)) \<and>
        (post = [] \<or> \<not> isWordChar (hd post)))"
proof (induction s arbitrary: aw)
  case Nil
  with assms show ?case by auto
next
  case (Cons c cs)
  show ?case
  proof
    assume "re_wholeWordFrom w aw (c # cs)"
    then consider "\<not> aw" "ciPrefix w (c # cs)" "atWordEnd (drop (length w) (c # cs))"
      | "re_wholeWordFrom w (isWordChar c) cs" by auto
    then show "\<exists>pre mid post. c # cs = pre @ mid @ post \<and> map lowerAscii mid = w \<and>
        (if pre = [] then \<not> aw else \<not> isWordChar (last pre)) \<and>
        (post = [] \<or> \<not> isWordChar (hd post))"
    proof cases
      case 1
      then have "c # cs = [] @ take (length w) (c # cs) @ drop (length w) (c # cs) \<and>
        map lowerAscii (take (length w) (c # cs)) = w \<and>
        (if ([]::string) = [] then \<not> aw else \<not> isWordChar (last [])) \<and>
        (drop (length w) (c # cs) = [] \<or> \<not> isWordChar (hd (drop (length w) (c # cs))))"
        by (simp add: ciPrefix_def atWordEnd_iff)
      then show ?thesis by blast
    next
      case 2
      with Cons.IH [of "isWordChar c"] obtain pre mid post where
        h: "cs = pre @ mid @ post" "map lowerAscii mid = w"
          "if pre = [] then \<not> isWordChar c else \<not> isWordChar (last pre)"
          "post = [] \<or> \<not> isWordChar (hd post)" by blast
      then have "c # cs = (c # pre) @ mid @ post \<and> map lowerAscii mid = w \<and>
        (if c # pre = [] then \<not> aw else \<not> isWordChar (last (c # pre))) \<and>
        (post = [] \<or> \<not> isWordChar (hd post))" by (simp split: if_splits)
      then show ?thesis by blast
    qed
  next
    assume "\<exists>pre mid post. c # cs = pre @ mid @ post \<and> map lowerAscii mid = w \<and>
        (if pre = [] then \<not> aw else \<not> isWordChar (last pre)) \<and>
        (post = [] \<or> \<not> isWordChar (hd post))"
    then obtain pre mid post where
      h: "c # cs = pre @ mid @ post" "map lowerAscii mid = w"
        "if pre = [] then \<not> aw else \<not> isWordChar (last pre)"
        "post = [] \<or> \<not> isWordChar (hd post)" by blast
    show "re_wholeWordFrom w aw (c # cs)"
    proof (cases pre)
      case Nil
      with h have "\<not> aw" "ciPrefix w (c # cs)" "atWordEnd (drop (length w) (c # cs))"
        by (auto simp: ciPrefix_def atWordEnd_iff)
      then show ?thesis by simp
    next
      case (Cons p ps)
      with h have "cs = ps @ mid @ post \<and> map lowerAscii mid = w \<and>
        (if ps = [] then \<not> isWordChar c else \<not> isWordChar (last ps)) \<and>
        (post = [] \<or> \<not> isWordChar (hd post))" by (auto split: if_splits)
      then have "re_wholeWordFrom w (isWordChar c) cs"
        unfolding Cons.IH [of "isWordChar c"] by blast
      then show ?thesis by simp
    qed
  qed
qed

lemma re_wholeWord_iff:
  assumes "w \<noteq> []"
  shows "re_wholeWord w s \<longleftrightarrow> containsWholeWord w s"
proof -
  have "(if pre = [] then \<not> False else \<not> isWordChar (last pre)) =
      (pre = [] \<or> \<not> isWordChar (last pre))" for pre :: string
    by simp
  then show ?thesis
    unfolding re_wholeWord_def containsWholeWord_def re_wholeWordFrom_iff [OF assms]
    by (simp only:)
qed

lemma lit_Some: "lit w s = Some r \<longleftrightarrow> (\<exists>x. s = x @ r \<and> map lowerAscii x = w)"
proof
  assume "lit w s = Some r"
  then have "s = take (length w) s @ r \<and> map lowerAscii (take (length w) s) = w"
    by (auto simp: lit_def ciPrefix_def split: if_splits)
  then show "\<exists>x. s = x @ r \<and> map lowerAscii x = w" by blast
next
  assume "\<exists>x. s = x @ r \<and> map lowerAscii x = w"
  then obtain x where "s = x @ r" "map lowerAscii x = w" by blast
  moreover from this have "length w = length x" by auto
  ultimately show "lit w s = Some r" by (simp add: lit_def ciPrefix_def)
qed

lemma dropWhile_spaces:
  "list_all isSpace sp \<Longrightarrow> r = [] \<or> \<not> isSpace (hd r) \<Longrightarrow> dropWhile isSpace (sp @ r) = r"
  by (induction sp) (cases r; simp)+

lemma spaces1_Some:
  "spaces1 s = Some r \<longleftrightarrow>
     (\<exists>sp. s = sp @ r \<and> sp \<noteq> [] \<and> list_all isSpace sp \<and> (r = [] \<or> \<not> isSpace (hd r)))"
proof
  assume "spaces1 s = Some r"
  then obtain c cs where s: "s = c # cs" "isSpace c" "r = dropWhile isSpace cs"
    by (auto simp: spaces1_def split: list.splits if_splits)
  then have "s = (c # takeWhile isSpace cs) @ r \<and> c # takeWhile isSpace cs \<noteq> [] \<and>
      list_all isSpace (c # takeWhile isSpace cs) \<and> (r = [] \<or> \<not> isSpace (hd r))"
    using hd_dropWhile [of isSpace cs] by (auto simp: list_all_iff dest: set_takeWhileD)
  then show "\<exists>sp. s = sp @ r \<and> sp \<noteq> [] \<and> list_all isSpace sp \<and> (r = [] \<or> \<not> isSpace (hd r))"
    by blast
next
  assume "\<exists>sp. s = sp @ r \<and> sp \<noteq> [] \<and> list_all isSpace sp \<and> (r = [] \<or> \<not> isSpace (hd r))"
  then obtain sp where h: "s = sp @ r" "sp \<noteq> []" "list_all isSpace sp"
    "r = [] \<or> \<not> isSpace (hd r)" by blast
  then obtain c cs where sp: "sp = c # cs" by (cases sp) auto
  with h have "isSpace c" "list_all isSpace cs" by auto
  with h sp dropWhile_spaces [of cs r] show "spaces1 s = Some r"
    by (simp add: spaces1_def)
qed

lemma lower_head_not_space:
  assumes "map lowerAscii x = a # w" "\<not> isSpace a"
  shows "x @ r = [] \<or> \<not> isSpace (hd (x @ r))"
proof -
  from assms(1) obtain c cs where "x = c # cs" "lowerAscii c = a" by auto
  with assms(2) isSpace_lowerAscii [of c] show ?thesis by simp
qed

lemma lit_head: "lit (a # w) s = Some r \<Longrightarrow> s \<noteq> [] \<and> lowerAscii (hd s) = a"
  unfolding lit_Some by auto

lemma bind_not_None: "Option.bind x f \<noteq> None \<longleftrightarrow> (\<exists>y. x = Some y \<and> f y \<noteq> None)"
  by (cases x) simp_all

lemma lit_spaces1:
  "Option.bind (lit w s) spaces1 = Some r \<longleftrightarrow>
     (\<exists>x sp. s = x @ sp @ r \<and> map lowerAscii x = w \<and> sp \<noteq> [] \<and> list_all isSpace sp \<and>
        (r = [] \<or> \<not> isSpace (hd r)))"
  unfolding bind_eq_Some_conv lit_Some spaces1_Some by auto


lemma lit_spaces1E:
  assumes "Option.bind (lit w s) spaces1 = Some r"
  obtains x sp where "s = x @ sp @ r" "map lowerAscii x = w" "sp \<noteq> []"
    "list_all isSpace sp" "r = [] \<or> \<not> isSpace (hd r)"
  using assms unfolding lit_spaces1 by blast

lemma lit_spaces1I:
  assumes "map lowerAscii x = w" "sp \<noteq> []"
    "list_all isSpace sp" "r = [] \<or> \<not> isSpace (hd r)"
  shows "Option.bind (lit w (x @ sp @ r)) spaces1 = Some r"
  using assms unfolding lit_spaces1 by blast

lemma not_space_a: "\<not> isSpace (CHR ''a'')" "\<not> isSpace (CHR ''j'')" "\<not> isSpace (CHR ''n'')"
  "\<not> isSpace (CHR ''f'')" "\<not> isSpace (CHR ''g'')"
  by (simp_all add: isSpace_def)

lemma audiencePrefix_Some:
  "re_audiencePrefix s = Some r \<longleftrightarrow>
     (\<exists>sp0 aud sp1. s = sp0 @ aud @ sp1 @ r \<and> list_all isSpace sp0 \<and> isAudienceWord aud \<and>
        sp1 \<noteq> [] \<and> list_all isSpace sp1 \<and> (r = [] \<or> \<not> isSpace (hd r)))"
  (is "?L \<longleftrightarrow> ?R")
proof
  assume ?L
  let ?s1 = "dropWhile isSpace s"
  have "Option.bind (lit ''adult'' ?s1) spaces1 = Some r \<or>
      Option.bind (lit ''junior'' ?s1) spaces1 = Some r"
  proof (cases "Option.bind (lit ''adult'' ?s1) spaces1")
    case None
    with \<open>?L\<close> show ?thesis by (simp add: re_audiencePrefix_def)
  next
    case (Some a)
    with \<open>?L\<close> show ?thesis by (simp add: re_audiencePrefix_def)
  qed
  then obtain aud sp1 where h: "?s1 = aud @ sp1 @ r" "isAudienceWord aud"
    "sp1 \<noteq> []" "list_all isSpace sp1" "r = [] \<or> \<not> isSpace (hd r)"
  proof
    assume "Option.bind (lit ''adult'' ?s1) spaces1 = Some r"
    then obtain x sp where "?s1 = x @ sp @ r" "map lowerAscii x = ''adult''" "sp \<noteq> []"
      "list_all isSpace sp" "r = [] \<or> \<not> isSpace (hd r)" by (rule lit_spaces1E)
    then show thesis by (intro that [of x sp]) (simp_all add: isAudienceWord_def)
  next
    assume "Option.bind (lit ''junior'' ?s1) spaces1 = Some r"
    then obtain x sp where "?s1 = x @ sp @ r" "map lowerAscii x = ''junior''" "sp \<noteq> []"
      "list_all isSpace sp" "r = [] \<or> \<not> isSpace (hd r)" by (rule lit_spaces1E)
    then show thesis by (intro that [of x sp]) (simp_all add: isAudienceWord_def)
  qed
  have "s = takeWhile isSpace s @ ?s1" by simp
  with h have "s = takeWhile isSpace s @ aud @ sp1 @ r" by simp
  moreover have "list_all isSpace (takeWhile isSpace s)"
    by (auto simp: list_all_iff dest: set_takeWhileD)
  ultimately have "s = takeWhile isSpace s @ aud @ sp1 @ r \<and>
      list_all isSpace (takeWhile isSpace s) \<and> isAudienceWord aud \<and>
      sp1 \<noteq> [] \<and> list_all isSpace sp1 \<and> (r = [] \<or> \<not> isSpace (hd r))"
    using h(2-5) by simp
  then show ?R by blast
next
  assume ?R
  then obtain sp0 aud sp1 where h: "s = sp0 @ aud @ sp1 @ r" "list_all isSpace sp0"
    "isAudienceWord aud"
    "sp1 \<noteq> []" "list_all isSpace sp1" "r = [] \<or> \<not> isSpace (hd r)"
    by blast
  from h(3) have w: "map lowerAscii aud = ''adult'' \<or> map lowerAscii aud = ''junior''"
    unfolding isAudienceWord_def by simp
  have "aud @ sp1 @ r = [] \<or> \<not> isSpace (hd (aud @ sp1 @ r))"
  proof (rule disjE [OF w])
    assume "map lowerAscii aud = ''adult''"
    then show ?thesis by (rule lower_head_not_space) (rule not_space_a)
  next
    assume "map lowerAscii aud = ''junior''"
    then show ?thesis by (rule lower_head_not_space) (rule not_space_a)
  qed
  with h(1,2) have s1: "dropWhile isSpace s = aud @ sp1 @ r"
    using dropWhile_spaces [of sp0 "aud @ sp1 @ r"] by simp
  from w show ?L
  proof
    assume "map lowerAscii aud = ''adult''"
    with h(4-6) have "Option.bind (lit ''adult'' (aud @ sp1 @ r)) spaces1 = Some r"
      by (intro lit_spaces1I)
    with s1 show ?L by (simp add: re_audiencePrefix_def)
  next
    assume j: "map lowerAscii aud = ''junior''"
    with h(4-6) have 1: "Option.bind (lit ''junior'' (aud @ sp1 @ r)) spaces1 = Some r"
      by (intro lit_spaces1I)
    have "lit ''adult'' (aud @ sp1 @ r) = None"
    proof (cases "lit ''adult'' (aud @ sp1 @ r)")
      case (Some m)
      from lit_head [OF Some] j show ?thesis by auto
    qed simp
    with 1 s1 show ?L by (simp add: re_audiencePrefix_def)
  qed
qed

lemma lit_I: "map lowerAscii x = w \<Longrightarrow> lit w (x @ r) = Some r"
  unfolding lit_Some by (rule exI [of _ x]) simp

lemma lit_E:
  assumes "lit w s = Some r"
  obtains x where "s = x @ r" "map lowerAscii x = w"
  using assms unfolding lit_Some by (elim exE conjE)

lemma lit_seq: "(\<exists>m. lit u s = Some m \<and> lit v m = Some r) \<longleftrightarrow> lit (u @ v) s = Some r"
proof
  assume "\<exists>m. lit u s = Some m \<and> lit v m = Some r"
  then obtain m where m: "lit u s = Some m" "lit v m = Some r" by (elim exE conjE)
  from m(1) obtain x where x: "s = x @ m" "map lowerAscii x = u" by (rule lit_E)
  from m(2) obtain y where y: "m = y @ r" "map lowerAscii y = v" by (rule lit_E)
  from x y have "map lowerAscii (x @ y) = u @ v" by simp
  from lit_I [OF this, of r] x y show "lit (u @ v) s = Some r" by simp
next
  assume "lit (u @ v) s = Some r"
  then obtain z where z: "s = z @ r" "map lowerAscii z = u @ v" by (rule lit_E)
  from z(2) obtain x y where xy: "z = x @ y" "map lowerAscii x = u" "map lowerAscii y = v"
    unfolding map_eq_append_conv by (elim exE conjE) simp
  from lit_I [OF xy(2), of "y @ r"] lit_I [OF xy(3), of r] z xy
  have "lit u s = Some (y @ r) \<and> lit v (y @ r) = Some r" by simp
  then show "\<exists>m. lit u s = Some m \<and> lit v m = Some r" by (rule exI)
qed

lemma lowerAscii_fix:
  assumes "c \<notin> set upperLetters" "c \<notin> set lowerLetters"
  shows "lowerAscii c' = c \<longleftrightarrow> c' = c"
  using lowerAscii_cases [of c'] lowerAscii_cases [of c] assms by metis

lemma oneOf_lit:
  assumes "\<forall>c\<in>set cls. c \<notin> set upperLetters \<and> c \<notin> set lowerLetters"
  shows "oneOf cls s = Some r \<longleftrightarrow> (\<exists>c\<in>set cls. lit [c] s = Some r)"
proof
  assume "oneOf cls s = Some r"
  then obtain c where c: "s = c # r" "c \<in> set cls"
    by (cases s) (simp_all add: oneOf_def split: if_splits)
  with assms have "lowerAscii c = c" using lowerAscii_fix [of c c] by blast
  then have "map lowerAscii [c] = [c]" by simp
  from lit_I [OF this, of r] c have "lit [c] s = Some r" by simp
  with c(2) show "\<exists>c\<in>set cls. lit [c] s = Some r" by (rule bexI [rotated])
next
  assume "\<exists>c\<in>set cls. lit [c] s = Some r"
  then obtain c where c: "c \<in> set cls" "lit [c] s = Some r" by (elim bexE)
  from c(2) obtain x where x: "s = x @ r" "map lowerAscii x = [c]" by (rule lit_E)
  from x(2) obtain c' where c': "x = [c']" "lowerAscii c' = c" by auto
  with c assms have "x = [c]" using lowerAscii_fix [of c c'] by blast
  with c x show "oneOf cls s = Some r" by (simp add: oneOf_def)
qed

lemma wordEnd_Some: "wordEnd r = Some r' \<longleftrightarrow> r' = r \<and> atWordEnd r"
  by (auto simp: wordEnd_def)

text \<open>The audience prefix followed by the word \<open>w\<close>.\<close>

lemma audience_then_word:
  assumes "\<not> isSpace a"
  shows "(\<exists>r rest. re_audiencePrefix s = Some r \<and> lit (a # w) r = Some rest \<and> atWordEnd rest)
    \<longleftrightarrow> (\<exists>sp0 aud sp1 x rest. s = sp0 @ aud @ sp1 @ x @ rest \<and>
        list_all isSpace sp0 \<and> isAudienceWord aud \<and>
        sp1 \<noteq> [] \<and> list_all isSpace sp1 \<and> map lowerAscii x = a # w \<and>
        (rest = [] \<or> \<not> isWordChar (hd rest)))"
  (is "?L \<longleftrightarrow> ?R")
proof
  assume ?L
  then obtain r rest where h: "re_audiencePrefix s = Some r" "lit (a # w) r = Some rest"
    "atWordEnd rest" by (elim exE conjE)
  from h(1) obtain sp0 aud sp1 where 1: "s = sp0 @ aud @ sp1 @ r" "list_all isSpace sp0"
    "isAudienceWord aud" "sp1 \<noteq> []" "list_all isSpace sp1"
    unfolding audiencePrefix_Some by (elim exE conjE)
  from h(2) obtain x where 2: "r = x @ rest" "map lowerAscii x = a # w"
    by (rule lit_E)
  have eq: "s = sp0 @ aud @ sp1 @ x @ rest" unfolding 1(1) 2(1) ..
  have e: "rest = [] \<or> \<not> isWordChar (hd rest)" using h(3) unfolding atWordEnd_iff .
  show ?R
    by (rule exI [of _ sp0], rule exI [of _ aud], rule exI [of _ sp1], rule exI [of _ x],
        rule exI [of _ rest]) (intro conjI eq 1(2-5) 2(2) e)
next
  assume ?R
  then obtain sp0 aud sp1 x rest where h: "s = sp0 @ aud @ sp1 @ x @ rest"
    "list_all isSpace sp0" "isAudienceWord aud"
    "sp1 \<noteq> []" "list_all isSpace sp1" and x: "map lowerAscii x = a # w"
    and e: "rest = [] \<or> \<not> isWordChar (hd rest)" by (elim exE conjE)
  from x assms have ns: "x @ rest = [] \<or> \<not> isSpace (hd (x @ rest))"
    by (rule lower_head_not_space)
  have "\<exists>sp0 aud sp1. s = sp0 @ aud @ sp1 @ (x @ rest) \<and> list_all isSpace sp0 \<and>
        isAudienceWord aud \<and>
        sp1 \<noteq> [] \<and> list_all isSpace sp1 \<and> (x @ rest = [] \<or> \<not> isSpace (hd (x @ rest)))"
    by (rule exI [of _ sp0], rule exI [of _ aud], rule exI [of _ sp1]) (intro conjI h ns)
  then have 1: "re_audiencePrefix s = Some (x @ rest)" unfolding audiencePrefix_Some .
  from x have 2: "lit (a # w) (x @ rest) = Some rest" by (rule lit_I)
  from e have 3: "atWordEnd rest" unfolding atWordEnd_iff .
  show ?L by (rule exI [of _ "x @ rest"], rule exI [of _ rest]) (intro conjI 1 2 3)
qed

lemma bind2_wordEnd:
  "Option.bind (Option.bind x f) wordEnd \<noteq> None \<longleftrightarrow>
     (\<exists>r rest. x = Some r \<and> f r = Some rest \<and> atWordEnd rest)"
  unfolding bind_not_None bind_eq_Some_conv not_None_eq wordEnd_Some by blast

lemma bind4_wordEnd:
  "Option.bind (Option.bind (Option.bind (Option.bind x f) g) h) wordEnd \<noteq> None \<longleftrightarrow>
     (\<exists>r rest. x = Some r \<and> (\<exists>m1 m2. f r = Some m1 \<and> g m1 = Some m2 \<and> h m2 = Some rest) \<and>
        atWordEnd rest)"
  unfolding bind_not_None bind_eq_Some_conv not_None_eq wordEnd_Some by blast

lemma lit_class_lit:
  assumes "\<forall>c\<in>set cls. c \<notin> set upperLetters \<and> c \<notin> set lowerLetters"
  shows "(\<exists>m1 m2. lit u r = Some m1 \<and> oneOf cls m1 = Some m2 \<and> lit v m2 = Some rest) \<longleftrightarrow>
     (\<exists>c\<in>set cls. lit (u @ [c] @ v) r = Some rest)"
proof -
  have "(\<exists>m1 m2. lit u r = Some m1 \<and> oneOf cls m1 = Some m2 \<and> lit v m2 = Some rest) \<longleftrightarrow>
      (\<exists>c\<in>set cls. \<exists>m1. lit u r = Some m1 \<and> (\<exists>m2. lit [c] m1 = Some m2 \<and> lit v m2 = Some rest))"
    unfolding oneOf_lit [OF assms] by blast
  also have "\<dots> \<longleftrightarrow> (\<exists>c\<in>set cls. \<exists>m1. lit u r = Some m1 \<and> lit ([c] @ v) m1 = Some rest)"
    unfolding lit_seq ..
  also have "\<dots> \<longleftrightarrow> (\<exists>c\<in>set cls. lit (u @ [c] @ v) r = Some rest)"
    unfolding lit_seq ..
  finally show ?thesis .
qed

lemma re_fiction_alt:
  "re_fiction s \<longleftrightarrow>
    (\<exists>r rest. re_audiencePrefix s = Some r \<and> lit ''fiction'' r = Some rest \<and> atWordEnd rest)"
  unfolding re_fiction_def by (rule bind2_wordEnd)

lemma re_nonFiction_alt:
  "re_nonFiction s \<longleftrightarrow>
    (\<exists>r rest. re_audiencePrefix s = Some r \<and>
       (\<exists>c\<in>set ''- ''. lit (''non'' @ [c] @ ''fiction'') r = Some rest) \<and> atWordEnd rest)"
proof -
  have cls: "\<forall>c\<in>set ''- ''. c \<notin> set upperLetters \<and> c \<notin> set lowerLetters"
    by (simp add: upperLetters_def lowerLetters_def)
  show ?thesis
    unfolding re_nonFiction_def bind4_wordEnd lit_class_lit [OF cls] ..
qed

lemma in_set_single: "y \<in> set [w] \<longleftrightarrow> y = w"
  by simp

lemma beginsAudienceThen_single:
  "beginsAudienceThen [w] s \<longleftrightarrow>
     (\<exists>sp0 aud sp1 x rest. s = sp0 @ aud @ sp1 @ x @ rest \<and>
        list_all isSpace sp0 \<and> isAudienceWord aud \<and>
        sp1 \<noteq> [] \<and> list_all isSpace sp1 \<and> map lowerAscii x = w \<and>
        (rest = [] \<or> \<not> isWordChar (hd rest)))"
  unfolding beginsAudienceThen_def in_set_single ..

lemma beginsAudienceThen_pair:
  "beginsAudienceThen [u, v] s \<longleftrightarrow> beginsAudienceThen [u] s \<or> beginsAudienceThen [v] s"
proof
  assume "beginsAudienceThen [u, v] s"
  then obtain sp0 aud sp1 x rest where h: "s = sp0 @ aud @ sp1 @ x @ rest"
    "list_all isSpace sp0" "isAudienceWord aud" "sp1 \<noteq> []" "list_all isSpace sp1"
    "rest = [] \<or> \<not> isWordChar (hd rest)" and x: "map lowerAscii x \<in> set [u, v]"
    unfolding beginsAudienceThen_def by (elim exE conjE)
  from x have "map lowerAscii x = u \<or> map lowerAscii x = v" by simp
  then show "beginsAudienceThen [u] s \<or> beginsAudienceThen [v] s"
  proof
    assume m: "map lowerAscii x = u"
    have "beginsAudienceThen [u] s" unfolding beginsAudienceThen_single
      by (rule exI [of _ sp0], rule exI [of _ aud], rule exI [of _ sp1], rule exI [of _ x],
          rule exI [of _ rest]) (intro conjI h m)
    then show ?thesis ..
  next
    assume m: "map lowerAscii x = v"
    have "beginsAudienceThen [v] s" unfolding beginsAudienceThen_single
      by (rule exI [of _ sp0], rule exI [of _ aud], rule exI [of _ sp1], rule exI [of _ x],
          rule exI [of _ rest]) (intro conjI h m)
    then show ?thesis ..
  qed
next
  assume d: "beginsAudienceThen [u] s \<or> beginsAudienceThen [v] s"
  show "beginsAudienceThen [u, v] s"
  proof (rule disjE [OF d])
    assume "beginsAudienceThen [u] s"
    then obtain sp0 aud sp1 x rest where h: "s = sp0 @ aud @ sp1 @ x @ rest"
      "list_all isSpace sp0" "isAudienceWord aud" "sp1 \<noteq> []" "list_all isSpace sp1"
      "rest = [] \<or> \<not> isWordChar (hd rest)" and x: "map lowerAscii x = u"
      unfolding beginsAudienceThen_single by (elim exE conjE)
    from x have m: "map lowerAscii x \<in> set [u, v]" by simp
    show ?thesis unfolding beginsAudienceThen_def
      by (rule exI [of _ sp0], rule exI [of _ aud], rule exI [of _ sp1], rule exI [of _ x],
          rule exI [of _ rest]) (intro conjI h m)
  next
    assume "beginsAudienceThen [v] s"
    then obtain sp0 aud sp1 x rest where h: "s = sp0 @ aud @ sp1 @ x @ rest"
      "list_all isSpace sp0" "isAudienceWord aud" "sp1 \<noteq> []" "list_all isSpace sp1"
      "rest = [] \<or> \<not> isWordChar (hd rest)" and x: "map lowerAscii x = v"
      unfolding beginsAudienceThen_single by (elim exE conjE)
    from x have m: "map lowerAscii x \<in> set [u, v]" by simp
    show ?thesis unfolding beginsAudienceThen_def
      by (rule exI [of _ sp0], rule exI [of _ aud], rule exI [of _ sp1], rule exI [of _ x],
          rule exI [of _ rest]) (intro conjI h m)
  qed
qed

lemma audience_word_iff:
  assumes "\<not> isSpace a"
  shows "(\<exists>r rest. re_audiencePrefix s = Some r \<and> lit (a # w) r = Some rest \<and> atWordEnd rest)
    \<longleftrightarrow> beginsAudienceThen [a # w] s"
  unfolding beginsAudienceThen_single by (rule audience_then_word [OF assms])

lemma re_fiction_iff: "re_fiction s \<longleftrightarrow> beginsAudienceThen [''fiction''] s"
  unfolding re_fiction_alt by (rule audience_word_iff) (rule not_space_a)

lemma bex_pair: "(\<exists>c\<in>set [u, v]. P c) \<longleftrightarrow> P u \<or> P v"
  by simp

lemma ex2_disj:
  "(\<exists>r rest. A r \<and> (B r rest \<or> C r rest) \<and> D rest) \<longleftrightarrow>
   (\<exists>r rest. A r \<and> B r rest \<and> D rest) \<or> (\<exists>r rest. A r \<and> C r rest \<and> D rest)"
  by blast

lemma re_nonFiction_iff:
  "re_nonFiction s \<longleftrightarrow> beginsAudienceThen [''non-fiction'', ''non fiction''] s"
proof -
  have "re_nonFiction s \<longleftrightarrow>
    (\<exists>r rest. re_audiencePrefix s = Some r \<and> lit ''non-fiction'' r = Some rest \<and> atWordEnd rest) \<or>
    (\<exists>r rest. re_audiencePrefix s = Some r \<and> lit ''non fiction'' r = Some rest \<and> atWordEnd rest)"
    unfolding re_nonFiction_alt bex_pair append.simps ex2_disj ..
  also have "\<dots> \<longleftrightarrow> beginsAudienceThen [''non-fiction''] s \<or>
      beginsAudienceThen [''non fiction''] s"
    unfolding audience_word_iff [OF not_space_a(3)] ..
  finally show ?thesis unfolding beginsAudienceThen_pair .
qed

text \<open>Two words with white space between them.\<close>

lemma twoWordsAt_Some:
  assumes "\<not> isSpace a"
  shows "twoWordsAt u (a # v) m = Some post \<longleftrightarrow>
    (\<exists>g sp f. m = g @ sp @ f @ post \<and> map lowerAscii g = u \<and> sp \<noteq> [] \<and>
       list_all isSpace sp \<and> map lowerAscii f = a # v)"
  (is "?L \<longleftrightarrow> ?R")
proof
  assume ?L
  then obtain y where y: "Option.bind (lit u m) spaces1 = Some y" "lit (a # v) y = Some post"
    by (cases "Option.bind (lit u m) spaces1") (simp_all add: twoWordsAt_def)
  from y(1) obtain g sp where 1: "m = g @ sp @ y" "map lowerAscii g = u" "sp \<noteq> []"
    "list_all isSpace sp" by (rule lit_spaces1E)
  from y(2) obtain f where 2: "y = f @ post" "map lowerAscii f = a # v" by (rule lit_E)
  have eq: "m = g @ sp @ f @ post" unfolding 1(1) 2(1) ..
  show ?R by (rule exI [of _ g], rule exI [of _ sp], rule exI [of _ f]) (intro conjI eq 1(2-4) 2(2))
next
  assume ?R
  then obtain g sp f where h: "m = g @ sp @ f @ post" "map lowerAscii g = u" "sp \<noteq> []"
    "list_all isSpace sp" "map lowerAscii f = a # v" by (elim exE conjE)
  from h(5) assms have ns: "f @ post = [] \<or> \<not> isSpace (hd (f @ post))"
    by (rule lower_head_not_space)
  have 1: "Option.bind (lit u m) spaces1 = Some (f @ post)"
    unfolding h(1) using h(2-4) ns by (rule lit_spaces1I)
  have 2: "lit (a # v) (f @ post) = Some post" using h(5) by (rule lit_I)
  show ?L unfolding twoWordsAt_def 1 using 2 by simp
qed

lemma twoWordsAt_wordsApartIn:
  assumes "\<not> isSpace a"
  shows "twoWordsAt u (a # v) m \<noteq> None \<longleftrightarrow>
    (\<exists>g sp f post. m = g @ sp @ f @ post \<and> map lowerAscii g = u \<and> sp \<noteq> [] \<and>
       list_all isSpace sp \<and> map lowerAscii f = a # v)"
  (is "?L \<longleftrightarrow> ?R")
proof
  assume ?L
  then obtain post where "twoWordsAt u (a # v) m = Some post" by (auto simp: not_None_eq)
  then obtain g sp f where h: "m = g @ sp @ f @ post" "map lowerAscii g = u" "sp \<noteq> []"
    "list_all isSpace sp" "map lowerAscii f = a # v"
    unfolding twoWordsAt_Some [OF assms] by (elim exE conjE)
  show ?R
    by (rule exI [of _ g], rule exI [of _ sp], rule exI [of _ f], rule exI [of _ post])
      (intro conjI h)
next
  assume ?R
  then obtain g sp f post where h: "m = g @ sp @ f @ post" "map lowerAscii g = u" "sp \<noteq> []"
    "list_all isSpace sp" "map lowerAscii f = a # v" by (elim exE conjE)
  have "twoWordsAt u (a # v) m = Some post" unfolding twoWordsAt_Some [OF assms]
    by (rule exI [of _ g], rule exI [of _ sp], rule exI [of _ f]) (intro conjI h)
  then show ?L by simp
qed

lemma wordsApartIn_Cons:
  "wordsApartIn u v (c # cs) \<longleftrightarrow>
    (\<exists>g sp f post. c # cs = g @ sp @ f @ post \<and> map lowerAscii g = u \<and> sp \<noteq> [] \<and>
       list_all isSpace sp \<and> map lowerAscii f = v) \<or> wordsApartIn u v cs"
  (is "?L \<longleftrightarrow> ?A \<or> ?B")
proof
  assume ?L
  then obtain pre g sp f post where h: "c # cs = pre @ g @ sp @ f @ post"
    "map lowerAscii g = u" "sp \<noteq> []" "list_all isSpace sp" "map lowerAscii f = v"
    unfolding wordsApartIn_def by (elim exE conjE)
  show "?A \<or> ?B"
  proof (cases pre)
    case Nil
    with h(1) have eq: "c # cs = g @ sp @ f @ post" by simp
    have ?A by (rule exI [of _ g], rule exI [of _ sp], rule exI [of _ f], rule exI [of _ post])
        (intro conjI eq h(2-5))
    then show ?thesis ..
  next
    case (Cons p ps)
    with h(1) have eq: "cs = ps @ g @ sp @ f @ post" by simp
    have ?B unfolding wordsApartIn_def
      by (rule exI [of _ ps], rule exI [of _ g], rule exI [of _ sp], rule exI [of _ f],
          rule exI [of _ post]) (intro conjI eq h(2-5))
    then show ?thesis ..
  qed
next
  assume "?A \<or> ?B"
  then show ?L
  proof
    assume ?A
    then obtain g sp f post where h: "c # cs = g @ sp @ f @ post"
      "map lowerAscii g = u" "sp \<noteq> []" "list_all isSpace sp" "map lowerAscii f = v"
      by (elim exE conjE)
    from h(1) have eq: "c # cs = [] @ g @ sp @ f @ post" by simp
    show ?L unfolding wordsApartIn_def
      by (rule exI [of _ "[]"], rule exI [of _ g], rule exI [of _ sp], rule exI [of _ f],
          rule exI [of _ post]) (intro conjI eq h(2-5))
  next
    assume ?B
    then obtain pre g sp f post where h: "cs = pre @ g @ sp @ f @ post"
      "map lowerAscii g = u" "sp \<noteq> []" "list_all isSpace sp" "map lowerAscii f = v"
      unfolding wordsApartIn_def by (elim exE conjE)
    from h(1) have eq: "c # cs = (c # pre) @ g @ sp @ f @ post" by simp
    show ?L unfolding wordsApartIn_def
      by (rule exI [of _ "c # pre"], rule exI [of _ g], rule exI [of _ sp], rule exI [of _ f],
          rule exI [of _ post]) (intro conjI eq h(2-5))
  qed
qed

lemma wordsApartIn_Nil: "\<not> wordsApartIn u v []"
  unfolding wordsApartIn_def by simp

lemma re_twoWords_iff:
  assumes "\<not> isSpace a"
  shows "re_twoWords u (a # v) s \<longleftrightarrow> wordsApartIn u (a # v) s"
proof (induction s)
  case Nil
  have "twoWordsAt u (a # v) [] = None"
    using twoWordsAt_wordsApartIn [OF assms, of u v "[]"] by simp
  then show ?case by (simp add: wordsApartIn_Nil)
next
  case (Cons c cs)
  show ?case
    unfolding re_twoWords.simps wordsApartIn_Cons twoWordsAt_wordsApartIn [OF assms] Cons.IH ..
qed


section \<open>Properties of the comparator and of sorting\<close>

lemma ccI:
  assumes "\<And>a b. (c a b < 0) = (0 < c b a)"
    and "\<And>a b d. c a b \<le> 0 \<Longrightarrow> c b d \<le> 0 \<Longrightarrow> c a d \<le> 0"
  shows "consistentComparator c"
  using assms unfolding consistentComparator_def by blast

lemma cc_flip: "consistentComparator c \<Longrightarrow> (c a b < 0) = (0 < c b a)"
  unfolding consistentComparator_def by blast

lemma cc_trans: "consistentComparator c \<Longrightarrow> c a b \<le> 0 \<Longrightarrow> c b d \<le> 0 \<Longrightarrow> c a d \<le> 0"
  unfolding consistentComparator_def by blast

lemma cc_zero: "consistentComparator c \<Longrightarrow> (c a b = 0) = (c b a = 0)"
  using cc_flip [of c a b] cc_flip [of c b a] by linarith

lemma cc_refl: "consistentComparator c \<Longrightarrow> c a a = 0"
  using cc_flip [of c a a] by linarith

lemma cc_key: "consistentComparator (\<lambda>a b. (k a :: int) - k b)"
  by (rule ccI) auto

lemma cc_map: "consistentComparator c \<Longrightarrow> consistentComparator (\<lambda>a b. c (f a) (f b))"
  by (rule ccI) (auto simp: cc_flip intro: cc_trans)

lemma cc_lex:
  assumes 1: "consistentComparator c1" and 2: "consistentComparator c2"
  shows "consistentComparator (\<lambda>a b. if c1 a b \<noteq> 0 then c1 a b else c2 a b)"
proof (rule ccI)
  fix a b
  show "((if c1 a b \<noteq> 0 then c1 a b else c2 a b) < 0) =
        (0 < (if c1 b a \<noteq> 0 then c1 b a else c2 b a))"
    using cc_flip [OF 1, of a b] cc_flip [OF 1, of b a] cc_flip [OF 2, of a b]
      cc_zero [OF 1, of a b]
    by auto
next
  fix a b d
  assume ab: "(if c1 a b \<noteq> 0 then c1 a b else c2 a b) \<le> 0"
    and bd: "(if c1 b d \<noteq> 0 then c1 b d else c2 b d) \<le> 0"
  from ab have ab1: "c1 a b \<le> 0" by (auto split: if_splits)
  from bd have bd1: "c1 b d \<le> 0" by (auto split: if_splits)
  have ad1: "c1 a d \<le> 0" using cc_trans [OF 1 ab1 bd1] .
  show "(if c1 a d \<noteq> 0 then c1 a d else c2 a d) \<le> 0"
  proof (cases "c1 a d = 0")
    case False
    with ad1 show ?thesis by simp
  next
    case True
    then have da: "c1 d a \<le> 0" using cc_zero [OF 1, of a d] by simp
    have "c1 d b \<le> 0" using cc_trans [OF 1 da ab1] .
    then have "\<not> c1 b d < 0" using cc_flip [OF 1, of b d] by linarith
    with bd1 have bd0: "c1 b d = 0" by linarith
    have "c1 b a \<le> 0" using cc_trans [OF 1 bd1 da] .
    then have "\<not> c1 a b < 0" using cc_flip [OF 1, of a b] by linarith
    with ab1 have ab0: "c1 a b = 0" by linarith
    from ab ab0 have "c2 a b \<le> 0" by simp
    moreover from bd bd0 have "c2 b d \<le> 0" by simp
    ultimately have "c2 a d \<le> 0" by (rule cc_trans [OF 2])
    with True show ?thesis by simp
  qed
qed

lemma cc_compareSequence:
  assumes "consistentComparator lc"
  shows "consistentComparator (compareSequence lc)"
proof (rule ccI)
  fix a b
  show "(compareSequence lc a b < 0) = (0 < compareSequence lc b a)"
    using cc_flip [OF assms, of a b]
    by (simp add: compareSequence_def compareText_def Let_def)
next
  fix a b d
  assume "compareSequence lc a b \<le> 0" "compareSequence lc b d \<le> 0"
  then show "compareSequence lc a d \<le> 0"
    using cc_trans [OF assms, of a b d]
    by (auto simp: compareSequence_def compareText_def Let_def split: if_splits)
qed

lemma compareEntries_lex:
  "compareEntries lc =
    (\<lambda>a b. if (itemTypeBucket (itemType a) - itemTypeBucket (itemType b)) \<noteq> 0
         then itemTypeBucket (itemType a) - itemTypeBucket (itemType b) else
      (\<lambda>a b. if lc (itemType a) (itemType b) \<noteq> 0 then lc (itemType a) (itemType b) else
      (\<lambda>a b. if compareSequence lc (normalizeSequenceForSorting (itemType a) (sequence a))
                   (normalizeSequenceForSorting (itemType b) (sequence b)) \<noteq> 0
         then compareSequence lc (normalizeSequenceForSorting (itemType a) (sequence a))
                   (normalizeSequenceForSorting (itemType b) (sequence b)) else
      (\<lambda>a b. if lc (shelfmark a) (shelfmark b) \<noteq> 0 then lc (shelfmark a) (shelfmark b) else
      (\<lambda>a b. if lc (author a) (author b) \<noteq> 0 then lc (author a) (author b) else
      (\<lambda>a b. if lc (barcode a) (barcode b) \<noteq> 0 then lc (barcode a) (barcode b) else
         int (originalIndex a) - int (originalIndex b)) a b) a b) a b) a b) a b)"
  by (intro ext) (simp add: compareEntries_def compareTypeBucket_def compareText_def Let_def)

lemma cc_compareEntries:
  assumes "consistentComparator lc"
  shows "consistentComparator (compareEntries lc)"
  unfolding compareEntries_lex
  by (intro cc_lex cc_key cc_map [OF assms]
      cc_map [OF cc_compareSequence [OF assms],
        of "\<lambda>e. normalizeSequenceForSorting (itemType e) (sequence e)"])

lemma compareEntries_zero_index:
  "compareEntries lc a b = 0 \<Longrightarrow> originalIndex a = originalIndex b"
  by (simp add: compareEntries_def Let_def split: if_splits)

lemma mset_insertBy: "mset (insertBy cmp x xs) = add_mset x (mset xs)"
  by (induction xs) auto

lemma mset_sortBy: "mset (sortBy cmp xs) = mset xs"
  by (induction xs) (auto simp: sortBy_def mset_insertBy)

lemma set_insertBy: "set (insertBy cmp x xs) = insert x (set xs)"
  by (induction xs) auto

lemma set_sortBy: "set (sortBy cmp xs) = set xs"
  by (induction xs) (auto simp: sortBy_def set_insertBy)

lemma length_sortBy: "length (sortBy cmp xs) = length xs"
  using mset_sortBy [of cmp xs] by (metis size_mset)

lemma sorted_insertBy:
  assumes "consistentComparator cmp" "sorted_wrt (\<lambda>a b. cmp a b \<le> 0) xs"
  shows "sorted_wrt (\<lambda>a b. cmp a b \<le> 0) (insertBy cmp x xs)"
  using assms(2)
proof (induction xs)
  case Nil
  show ?case by simp
next
  case (Cons y ys)
  show ?case
  proof (cases "cmp x y \<le> 0")
    case True
    with Cons.prems show ?thesis
      by (auto intro: cc_trans [OF assms(1)])
  next
    case False
    then have "cmp y x \<le> 0" using cc_flip [OF assms(1), of y x] by linarith
    with False Cons show ?thesis by (auto simp: set_insertBy)
  qed
qed

lemma sorted_sortBy:
  assumes "consistentComparator cmp"
  shows "sorted_wrt (\<lambda>a b. cmp a b \<le> 0) (sortBy cmp xs)"
proof (induction xs)
  case Nil
  show ?case by (simp add: sortBy_def)
next
  case (Cons x xs)
  then show ?case using sorted_insertBy [OF assms] by (simp add: sortBy_def)
qed

lemma sortBy_sorted:
  "sorted_wrt (\<lambda>a b. cmp a b \<le> 0) xs \<Longrightarrow> sortBy cmp xs = xs"
proof (induction xs)
  case Nil
  show ?case by (simp add: sortBy_def)
next
  case (Cons x xs)
  then have "sortBy cmp (x # xs) = insertBy cmp x xs" by (simp add: sortBy_def)
  with Cons.prems show ?case by (cases xs) auto
qed

lemma sorted_unique:
  assumes "sorted_wrt (\<lambda>a b. cmp a b \<le> 0) xs" "sorted_wrt (\<lambda>a b. cmp a b \<le> 0) ys"
    and "mset xs = mset ys"
    and "\<And>a b. a \<in> set xs \<Longrightarrow> b \<in> set xs \<Longrightarrow> cmp a b \<le> 0 \<Longrightarrow> cmp b a \<le> 0 \<Longrightarrow> a = b"
  shows "xs = ys"
  using assms
proof (induction xs arbitrary: ys)
  case Nil
  then show ?case by simp
next
  case (Cons x xs)
  then obtain y ys' where ys: "ys = y # ys'" by (cases ys) auto
  have sets: "set (x # xs) = set ys" using Cons.prems(3) by (metis set_mset_mset)
  have "x = y"
  proof (rule ccontr)
    assume ne: "x \<noteq> y"
    with sets ys have "x \<in> set ys'" "y \<in> set xs" by auto
    with Cons.prems(1,2) ys have "cmp y x \<le> 0" "cmp x y \<le> 0" by auto
    with Cons.prems(4) [of x y] \<open>y \<in> set xs\<close> ne show False by auto
  qed
  with Cons.prems ys have "xs = ys'"
    by (intro Cons.IH) auto
  with \<open>x = y\<close> ys show ?case by simp
qed

lemma sampleCollator_flip: "(sampleCollator a b < 0) = (0 < sampleCollator b a)"
proof (induction a b rule: sampleCollator.induct)
  case (4 x xs y ys)
  then show ?case by (simp split: if_splits)
qed simp_all

lemma sampleCollator_trans:
  "sampleCollator a b \<le> 0 \<Longrightarrow> sampleCollator b d \<le> 0 \<Longrightarrow> sampleCollator a d \<le> 0"
proof (induction a b arbitrary: d rule: sampleCollator.induct)
  case 1
  then show ?case by simp
next
  case (2 y ys)
  then show ?case by (cases d) simp_all
next
  case (3 x xs)
  then show ?case by simp
next
  case (4 x xs y ys)
  show ?case
  proof (cases d)
    case Nil
    with 4 show ?thesis by simp
  next
    case (Cons z zs)
    from "4.prems"(1) have xy: "charKey x \<le> charKey y" by (simp split: if_splits)
    from "4.prems"(2) Cons have yz: "charKey y \<le> charKey z" by (simp split: if_splits)
    show ?thesis
    proof (cases "charKey x < charKey z")
      case True
      with Cons show ?thesis by simp
    next
      case False
      with xy yz have e: "charKey x = charKey y" "charKey y = charKey z" by simp_all
      with "4.prems" Cons have "sampleCollator xs ys \<le> 0" "sampleCollator ys zs \<le> 0"
        by simp_all
      with "4.IH" [of zs] e have "sampleCollator xs zs \<le> 0" by simp
      with e Cons show ?thesis by simp
    qed
  qed
qed

lemma cc_sampleCollator: "consistentComparator sampleCollator"
proof (rule ccI)
  show "(sampleCollator a b < 0) = (0 < sampleCollator b a)" for a b
    by (rule sampleCollator_flip)
  show "sampleCollator a b \<le> 0 \<Longrightarrow> sampleCollator b d \<le> 0 \<Longrightarrow> sampleCollator a d \<le> 0"
    for a b d by (rule sampleCollator_trans)
qed


section \<open>The report parser\<close>

text \<open>\<^verbatim>\<open>input.replace(/\r/g, "").split("\n")\<close> is \<open>inputLines\<close> below.\<close>

definition removeCR :: "string \<Rightarrow> string" where
  "removeCR s = filter (\<lambda>c. c \<noteq> CHR 0x0D) s"

fun splitOn :: "char \<Rightarrow> string \<Rightarrow> string list" where
  "splitOn d [] = [[]]"
| "splitOn d (c # cs) =
     (if c = d then [] # splitOn d cs
      else (case splitOn d cs of [] \<Rightarrow> [[c]] | l # ls \<Rightarrow> (c # l) # ls))"

text \<open>The characters that \<^verbatim>\<open>.\<close> does not match, in the Latin-1 range.\<close>

definition isLineTerminator :: "char \<Rightarrow> bool" where
  "isLineTerminator c \<longleftrightarrow> c = CHR 0x0A \<or> c = CHR 0x0D"

text \<open>\<^verbatim>\<open>BARCODE_PATTERN = "30120\\d+"\<close>, matched against a whole token.\<close>

definition isBarcode :: "string \<Rightarrow> bool" where
  "isBarcode tok \<longleftrightarrow> take 5 tok = ''30120'' \<and> drop 5 tok \<noteq> [] \<and> list_all isDigit (drop 5 tok)"

definition lastToken :: "string \<Rightarrow> string" where
  "lastToken s = rev (takeWhile (\<lambda>c. \<not> isSpace c) (rev s))"

text \<open>
  \<^verbatim>\<open>entryStartRegex = /^\s*(.*?)\s+(30120\d+)\s*$/\<close>: the two groups of a match. The
  barcode is followed by white space only and preceded by white space, so it is the last
  token of the line; the first group is lazy and ends before the white space in front of
  the barcode, and the greedy \<^verbatim>\<open>\s*\<close> before it takes all leading white space.
\<close>

definition entryStartMatch :: "string \<Rightarrow> (string \<times> string) option" where
  "entryStartMatch line =
     (let body = trimEnd line;
          tok = lastToken body;
          lead = take (length body - length tok) body
      in if isBarcode tok \<and> lead \<noteq> [] \<and>
            list_all (\<lambda>c. \<not> isLineTerminator c) (trim lead)
         then Some (trim lead, tok) else None)"

definition entryStartTest :: "string \<Rightarrow> bool" where
  "entryStartTest line \<longleftrightarrow> entryStartMatch line \<noteq> None"

text \<open>\<^verbatim>\<open>/^\s*Items at\s+(.+?)\s*$/i\<close>: the group, trimmed.\<close>

definition libraryMatch :: "string \<Rightarrow> string option" where
  "libraryMatch line =
     (case lit ''items at'' (dropWhile isSpace line) of
        None \<Rightarrow> None
      | Some [] \<Rightarrow> None
      | Some (c # cs) \<Rightarrow>
          if \<not> isSpace c then None
          else
            let name = trimEnd (dropWhile isSpace cs) in
            if name \<noteq> [] then
              (if list_all (\<lambda>c. \<not> isLineTerminator c) name then Some name else None)
            else if list_ex (\<lambda>c. \<not> isLineTerminator c) cs then Some []
            else None)"

text \<open>\<^verbatim>\<open>/^\s*res_itm_noloan\s+(\d{2}\/\d{2}\/\d{2})\s*$/i\<close>: the group.\<close>

definition isDate :: "string \<Rightarrow> bool" where
  "isDate s =
     (case s of
        [a, b, c, d, e, f, g, h] \<Rightarrow>
          isDigit a \<and> isDigit b \<and> c = CHR ''/'' \<and> isDigit d \<and> isDigit e \<and> f = CHR ''/'' \<and>
          isDigit g \<and> isDigit h
      | _ \<Rightarrow> False)"

definition dateMatch :: "string \<Rightarrow> string option" where
  "dateMatch line =
     (case Option.bind (lit ''res_itm_noloan'' (dropWhile isSpace line)) spaces1 of
        None \<Rightarrow> None
      | Some r \<Rightarrow> if isDate (take 8 r) \<and> list_all isSpace (drop 8 r) then Some (take 8 r) else None)"

fun extractHeaderLoop :: "string list \<Rightarrow> string \<times> string \<Rightarrow> string \<times> string" where
  "extractHeaderLoop [] acc = acc"
| "extractHeaderLoop (line # rest) (libraryName', reportDate') =
     extractHeaderLoop rest
       (case libraryMatch line of Some n \<Rightarrow> trim n | None \<Rightarrow> libraryName',
        case dateMatch line of Some d \<Rightarrow> d | None \<Rightarrow> reportDate')"

definition extractHeaderMetadata :: "string list \<Rightarrow> string \<times> string" where
  "extractHeaderMetadata headerLines =
     extractHeaderLoop headerLines (''Unknown Library'', ''Unknown date'')"

text \<open>\<^verbatim>\<open>new RegExp(`^\\s*${escapeRegex(fieldName)}\\s*:\\s*(.*)$`, "i")\<close>: the group. The
  two field names of the source have no character that \<^verbatim>\<open>escapeRegex\<close> changes.\<close>

definition fieldMatch :: "string \<Rightarrow> string \<Rightarrow> string option" where
  "fieldMatch fieldName line =
     (case lit (map lowerAscii fieldName) (dropWhile isSpace line) of
        None \<Rightarrow> None
      | Some r \<Rightarrow>
          (case dropWhile isSpace r of
             [] \<Rightarrow> None
           | c # v \<Rightarrow>
               if c = CHR '':'' \<and> list_all (\<lambda>c. \<not> isLineTerminator c) (dropWhile isSpace v)
               then Some (dropWhile isSpace v) else None))"

fun findField :: "string list \<Rightarrow> string \<Rightarrow> string" where
  "findField [] fieldName = []"
| "findField (line # rest) fieldName =
     (case fieldMatch fieldName line of Some g \<Rightarrow> trim g | None \<Rightarrow> findField rest fieldName)"

datatype ParseError =
    NoItemEntriesFound
  | InvalidEntryStart nat
  | IntegrityCheckFailed nat nat
  | EntriesCouldNotBeParsed

record ParseResult =
  libraryName :: string
  reportDate :: string
  entries :: "Entry list"

definition parseEntry :: "string list \<Rightarrow> nat \<Rightarrow> ParseError + Entry" where
  "parseEntry rawLines' originalIndex' =
     (let firstLine = (case rawLines' of [] \<Rightarrow> [] | l # _ \<Rightarrow> l) in
      case entryStartMatch firstLine of
        None \<Rightarrow> Inl (InvalidEntryStart (originalIndex' + 1))
      | Some (g1, g2) \<Rightarrow>
          let preBarcode = trim g1;
              itemType' = findField rawLines' ''Item Type'';
              sequence' = findField rawLines' ''Sequence''
          in Inr \<lparr>rawLines = rawLines',
                  barcode = g2,
                  shelfmark = takeWhile (\<lambda>c. \<not> isSpace c) preBarcode,
                  author = trim (if 1 < length rawLines' then rawLines' ! 1 else []),
                  itemType = itemType',
                  sequence = sequence',
                  audience = classifyAudience itemType' sequence',
                  originalIndex = originalIndex'\<rparr>)"

text \<open>The state of the loop of \<^verbatim>\<open>parseList\<close>: the entries pushed so far and the lines of
  the record that is open.\<close>

definition finalizeCurrent ::
    "Entry list \<times> string list \<Rightarrow> ParseError + (Entry list \<times> string list)" where
  "finalizeCurrent st =
     (case st of (entries', currentLines) \<Rightarrow>
        if currentLines = [] then Inr (entries', currentLines)
        else (case parseEntry currentLines (length entries') of
                Inl e \<Rightarrow> Inl e
              | Inr entry \<Rightarrow> Inr (entries' @ [entry], [])))"

fun parseLoop ::
    "string list \<Rightarrow> Entry list \<times> string list \<Rightarrow> ParseError + (Entry list \<times> string list)" where
  "parseLoop [] st = Inr st"
| "parseLoop (line # rest) (entries', currentLines) =
     (if entryStartTest line then
        (case finalizeCurrent (entries', currentLines) of
           Inl e \<Rightarrow> Inl e
         | Inr (entries'', _) \<Rightarrow> parseLoop rest (entries'', [line]))
      else if currentLines \<noteq> [] then parseLoop rest (entries', currentLines @ [line])
      else parseLoop rest (entries', currentLines))"

fun findIndex :: "('a \<Rightarrow> bool) \<Rightarrow> 'a list \<Rightarrow> nat option" where
  "findIndex P [] = None"
| "findIndex P (x # xs) = (if P x then Some 0 else map_option Suc (findIndex P xs))"

definition inputLines :: "string \<Rightarrow> string list" where
  "inputLines input = splitOn (CHR 0x0A) (removeCR input)"

definition parseList :: "string \<Rightarrow> ParseError + ParseResult" where
  "parseList input =
     (let lines = inputLines input in
      case findIndex entryStartTest lines of
        None \<Rightarrow> Inl NoItemEntriesFound
      | Some firstEntryIndex \<Rightarrow>
          (case extractHeaderMetadata (take firstEntryIndex lines) of
             (libraryName', reportDate') \<Rightarrow>
               (case parseLoop (drop firstEntryIndex lines) ([], []) of
                  Inl e \<Rightarrow> Inl e
                | Inr st \<Rightarrow>
                    (case finalizeCurrent st of
                       Inl e \<Rightarrow> Inl e
                     | Inr (entries', _) \<Rightarrow>
                         let rawEntryCount = length (filter entryStartTest lines) in
                         if length entries' \<noteq> rawEntryCount
                         then Inl (IntegrityCheckFailed rawEntryCount (length entries'))
                         else if length entries' = 0 then Inl EntriesCouldNotBeParsed
                         else Inr \<lparr>libraryName = libraryName', reportDate = reportDate',
                                   entries = entries'\<rparr>))))"


section \<open>Sorted lists and render blocks\<close>

datatype FontStyle = Normal | Bold | Italic

record RenderSegment =
  segText :: string
  style :: FontStyle

text \<open>The optional fields of a line are \<open>None\<close> where the source leaves them undefined.\<close>

record RenderLine =
  segments :: "RenderSegment list"
  rightText :: "string option"
  rightStyle :: "FontStyle option"
  continuation :: "bool option"

record RenderBlock =
  lines :: "RenderLine list"
  sectionHeading :: RenderLine
  hasHeading :: bool

record RenderDocument =
  title :: string
  blocks :: "RenderBlock list"

record SortResult =
  originalCount :: nat
  adultCount :: nat
  juniorCount :: nat
  isValid :: bool
  adultDoc :: RenderDocument
  juniorDoc :: RenderDocument

definition makePlainLine :: "string \<Rightarrow> RenderLine" where
  "makePlainLine t =
     \<lparr>segments = [\<lparr>segText = t, style = Normal\<rparr>], rightText = None, rightStyle = None,
      continuation = None\<rparr>"

definition makeStyledLine :: "string \<Rightarrow> FontStyle \<Rightarrow> RenderLine" where
  "makeStyledLine t st =
     \<lparr>segments = [\<lparr>segText = t, style = st\<rparr>], rightText = None, rightStyle = None,
      continuation = None\<rparr>"

definition lineText :: "RenderLine \<Rightarrow> string" where
  "lineText line = concat (map segText (segments line))"

text \<open>The truth value of \<^verbatim>\<open>line.rightText\<close>: defined and not the empty string.\<close>

definition hasRightText :: "RenderLine \<Rightarrow> bool" where
  "hasRightText line = (case rightText line of None \<Rightarrow> False | Some t \<Rightarrow> t \<noteq> [])"

definition isBlankLine :: "RenderLine \<Rightarrow> bool" where
  "isBlankLine line \<longleftrightarrow> lineText line = [] \<and> \<not> hasRightText line"

text \<open>\<^verbatim>\<open>/^(Item Type|Sequence|Reserved at)\s*:/i.test(line)\<close>\<close>

definition isMetadataLine :: "string \<Rightarrow> bool" where
  "isMetadataLine line =
     list_ex (\<lambda>w. case lit w line of
                     None \<Rightarrow> False
                   | Some r \<Rightarrow> (case dropWhile isSpace r of [] \<Rightarrow> False | c # _ \<Rightarrow> c = CHR '':''))
       [''item type'', ''sequence'', ''reserved at'']"

text \<open>\<^verbatim>\<open>/^Sequence\s*:\s*$/i.test(line)\<close>\<close>

definition shouldOmitEntryLine :: "string \<Rightarrow> bool" where
  "shouldOmitEntryLine line =
     (case lit ''sequence'' line of
        None \<Rightarrow> False
      | Some r \<Rightarrow>
          (case dropWhile isSpace r of
             [] \<Rightarrow> False
           | c # v \<Rightarrow> c = CHR '':'' \<and> list_all isSpace v))"

text \<open>\<^verbatim>\<open>new RegExp(`^(.*?)\\s+(${BARCODE_PATTERN})\\s*$`)\<close>: the two groups. The first
  group is lazy, so it ends before the white space in front of the barcode.\<close>

definition firstLineMatch :: "string \<Rightarrow> (string \<times> string) option" where
  "firstLineMatch first =
     (let body = trimEnd first;
          tok = lastToken body;
          lead = take (length body - length tok) body
      in if isBarcode tok \<and> lead \<noteq> [] \<and>
            list_all (\<lambda>c. \<not> isLineTerminator c) (trimEnd lead)
         then Some (trimEnd lead, tok) else None)"

definition buildEntryRenderLines :: "string list \<Rightarrow> RenderLine list" where
  "buildEntryRenderLines rawLines' =
     (let nonBlank = filter (\<lambda>line. trim line \<noteq> []) rawLines' in
      case nonBlank of
        [] \<Rightarrow> []
      | l # ls \<Rightarrow>
          let first = dropWhile isSpace l;
              firstLine =
                (case firstLineMatch first of
                   Some (g1, g2) \<Rightarrow>
                     \<lparr>segments = [\<lparr>segText = trimEnd g1, style = Normal\<rparr>],
                      rightText = Some g2, rightStyle = Some Normal, continuation = None\<rparr>
                 | None \<Rightarrow> makePlainLine first);
              remaining = map (dropWhile isSpace) ls;
              titleIndex =
                (case findIndex isMetadataLine remaining of
                   Some (Suc k) \<Rightarrow> Some k
                 | _ \<Rightarrow> None)
          in firstLine #
             concat (map (\<lambda>(i, line).
                        if shouldOmitEntryLine line then []
                        else if titleIndex = Some i then [makeStyledLine line Italic]
                        else [makePlainLine line])
                      (enumerate 0 remaining)))"

text \<open>The dash of the headings and titles, U+2014, lies outside the Latin-1 range: it is
  carried as its three UTF-8 bytes, none of which is white space or a word character.\<close>

definition emDash :: string where
  "emDash = [CHR 0xE2, CHR 0x80, CHR 0x94]"

definition formatGroupHeading :: "string \<Rightarrow> string \<Rightarrow> string" where
  "formatGroupHeading itemType' effectiveSequence =
     (if trim effectiveSequence = [] then itemType' @ '' '' @ emDash
      else itemType' @ '' '' @ emDash @ '' '' @ effectiveSequence)"

definition groupKeyOf :: "Entry \<Rightarrow> string" where
  "groupKeyOf entry =
     itemType entry @ [CHR 0x00] @ normalizeSequenceForSorting (itemType entry) (sequence entry)"

text \<open>The loop of \<^verbatim>\<open>buildRenderBlocks\<close>; its state is the blocks pushed so far,
  \<^verbatim>\<open>lastGroupKey\<close> and \<^verbatim>\<open>currentSectionHeading\<close> (both \<^verbatim>\<open>null\<close> at first).\<close>

fun renderBlocksLoop ::
    "Entry list \<Rightarrow> RenderBlock list \<times> string option \<times> RenderLine option \<Rightarrow> RenderBlock list"
  where
  "renderBlocksLoop [] (blocks', lastGroupKey, currentSectionHeading) = blocks'"
| "renderBlocksLoop (entry # rest) (blocks', lastGroupKey, currentSectionHeading) =
     (let effectiveSequence = normalizeSequenceForSorting (itemType entry) (sequence entry);
          groupKey = groupKeyOf entry;
          cleanedEntryLines = buildEntryRenderLines (rawLines entry)
      in if Some groupKey \<noteq> lastGroupKey then
           let heading = makeStyledLine (formatGroupHeading (itemType entry) effectiveSequence) Bold
           in renderBlocksLoop rest
                (blocks' @
                   [\<lparr>lines = [heading, makePlainLine []] @ cleanedEntryLines @ [makePlainLine []],
                     sectionHeading = heading, hasHeading = True\<rparr>],
                 Some groupKey, Some heading)
         else
           let heading =
                 (case currentSectionHeading of
                    Some h \<Rightarrow> h
                  | None \<Rightarrow>
                      makeStyledLine (formatGroupHeading (itemType entry) effectiveSequence) Bold)
           in renderBlocksLoop rest
                (blocks' @
                   [\<lparr>lines = cleanedEntryLines @ [makePlainLine []],
                     sectionHeading = heading, hasHeading = False\<rparr>],
                 lastGroupKey, Some heading))"

definition popTrailingBlank :: "RenderLine list \<Rightarrow> RenderLine list" where
  "popTrailingBlank ls = rev (dropWhile isBlankLine (rev ls))"

definition buildRenderBlocks :: "Entry list \<Rightarrow> RenderBlock list" where
  "buildRenderBlocks entries' =
     (let blocks' = renderBlocksLoop entries' ([], None, None) in
      if blocks' = [] then []
      else butlast blocks' @
             [(last blocks')\<lparr>lines := popTrailingBlank (lines (last blocks'))\<rparr>])"

definition buildDocument :: "string \<Rightarrow> string \<Rightarrow> string \<Rightarrow> Entry list \<Rightarrow> RenderDocument" where
  "buildDocument audienceLabel libraryName' reportDate' entries' =
     \<lparr>title = audienceLabel @ '' reservation list '' @ emDash @ '' '' @ libraryName' @ '' '' @
               emDash @ '' '' @ reportDate',
      blocks = buildRenderBlocks entries'\<rparr>"

text \<open>A \<^verbatim>\<open>Set\<close> of indices is the list of its distinct members: \<^verbatim>\<open>size\<close> is its
  length, \<^verbatim>\<open>has\<close> is membership.\<close>

text \<open>\<^verbatim>\<open>allEntries.filter((entry) => entry.audience === a).sort(compareEntries)\<close>\<close>

definition partitionOf :: "collator \<Rightarrow> Audience \<Rightarrow> Entry list \<Rightarrow> Entry list" where
  "partitionOf lc a allEntries =
     sortBy (compareEntries lc) (filter (\<lambda>entry. audience entry = a) allEntries)"

definition buildSortedLists :: "collator \<Rightarrow> ParseResult \<Rightarrow> SortResult" where
  "buildSortedLists lc parsed =
     (let allEntries = entries parsed;
          adultEntries = partitionOf lc Adult allEntries;
          juniorEntries = partitionOf lc Junior allEntries;
          allIndices = remdups (map originalIndex allEntries);
          splitIndices = remdups (map originalIndex (adultEntries @ juniorEntries))
      in \<lparr>originalCount = length allEntries,
          adultCount = length adultEntries,
          juniorCount = length juniorEntries,
          isValid = (length splitIndices = length allIndices \<and>
                     list_all (\<lambda>i. i \<in> set splitIndices) allIndices),
          adultDoc = buildDocument ''Adult'' (libraryName parsed) (reportDate parsed) adultEntries,
          juniorDoc =
            buildDocument ''Junior'' (libraryName parsed) (reportDate parsed) juniorEntries\<rparr>)"

end
